theory Spec2Isabelle
  imports Main "HOL-Library.Word" "HOL-Library.Signed_Division" "HOL-Library.Sublist"
begin

section \<open>Go values\<close>

text \<open>
  Go's \<^verbatim>\<open>int\<close> on a 64-bit platform: two's complement, \<^verbatim>\<open>+\<close> and \<^verbatim>\<open>*\<close> wrap around,
  comparisons are signed (\<open><s\<close>, \<open>\<le>s\<close>). The flags \<^verbatim>\<open>threadsCount\<close>,
  \<^verbatim>\<open>secondsCount\<close> and \<^verbatim>\<open>lineProtocolsCount\<close> are parsed by \<^verbatim>\<open>flag.Int\<close>, so every
  64-bit value can reach the program.
\<close>

type_synonym goint = "64 word"

text \<open>A non-nil \<^verbatim>\<open>error\<close> value, with its message.\<close>

datatype error = Error string

text \<open>
  What stops a goroutine abnormally: \<^verbatim>\<open>panic(err)\<close> of \<^verbatim>\<open>main\<close>, and the run-time panics
  of the operations the program uses (indexing a slice, integer division, the single-value
  type assertion, \<^verbatim>\<open>close\<close> of a closed channel, a negative \<^verbatim>\<open>WaitGroup\<close> counter).
\<close>

datatype panic =
    PanicError error
  | IndexOutOfRange
  | DivideByZero
  | InterfaceConversion
  | CloseOfClosedChannel
  | NegativeWaitGroupCounter

text \<open>\<^verbatim>\<open>xs[i]\<close> on a slice: a run-time panic when \<open>i\<close> is out of range.\<close>

definition index :: "'a list \<Rightarrow> nat \<Rightarrow> panic + 'a" where
  "index xs i = (if i < length xs then Inr (xs ! i) else Inl IndexOutOfRange)"

text \<open>Sequencing of operations that may panic: the first panic ends the evaluation.\<close>

definition and_then :: "panic + 'a \<Rightarrow> ('a \<Rightarrow> panic + 'b) \<Rightarrow> panic + 'b" where
  "and_then r f = (case r of Inl p \<Rightarrow> Inl p | Inr x \<Rightarrow> f x)"

text \<open>
  \<^verbatim>\<open>a / b\<close> on \<^verbatim>\<open>int\<close>: a run-time panic when \<open>b\<close> is zero, otherwise the quotient
  truncated towards zero (and wrapped to 64 bits).
\<close>

definition go_div :: "goint \<Rightarrow> goint \<Rightarrow> panic + goint" where
  "go_div a b = (if b = 0 then Inl DivideByZero else Inr (word_of_int (sint a sdiv sint b)))"

text \<open>
  \<^verbatim>\<open>strconv.Atoi\<close>: an optional sign and decimal digits. A syntax error returns 0, a value
  out of the range of \<^verbatim>\<open>int\<close> returns the nearest bound, both with a non-nil error.
\<close>

definition is_digit :: "char \<Rightarrow> bool" where
  "is_digit c \<longleftrightarrow> 48 \<le> (of_char c :: int) \<and> (of_char c :: int) \<le> 57"

fun digits_val :: "string \<Rightarrow> int \<Rightarrow> int option" where
  "digits_val [] acc = Some acc"
| "digits_val (c # cs) acc =
     (if is_digit c then digits_val cs (10 * acc + (of_char c - 48)) else None)"

definition strip_sign :: "string \<Rightarrow> bool \<times> string" where
  "strip_sign s =
     (case s of
        [] \<Rightarrow> (False, [])
      | c # cs \<Rightarrow>
          if c = CHR ''-'' then (True, cs)
          else if c = CHR ''+'' then (False, cs)
          else (False, s))"

definition ErrSyntax :: error where
  "ErrSyntax = Error ''invalid syntax''"

definition ErrRange :: error where
  "ErrRange = Error ''value out of range''"

definition Atoi :: "string \<Rightarrow> goint \<times> error option" where
  "Atoi s =
     (case strip_sign s of
        (neg, ds) \<Rightarrow>
          if ds = [] then (0, Some ErrSyntax)
          else
            (case digits_val ds 0 of
               None \<Rightarrow> (0, Some ErrSyntax)
             | Some n \<Rightarrow>
                 if neg then
                   (if 2 ^ 63 < n then (word_of_int (- (2 ^ 63)), Some ErrRange)
                    else (word_of_int (- n), None))
                 else
                   (if 2 ^ 63 \<le> n then (word_of_int (2 ^ 63 - 1), Some ErrRange)
                    else (word_of_int n, None))))"


section \<open>The stop channel\<close>

text \<open>
  \<^verbatim>\<open>stopExecution := make(chan bool)\<close> (line 85) is unbuffered and nothing is ever sent on
  it, so its state is whether it has been closed. \<^verbatim>\<open>close\<close> of a closed channel is a
  run-time panic. The \<^verbatim>\<open>case <-stopExecution\<close> of a \<^verbatim>\<open>select\<close> with a \<^verbatim>\<open>default\<close> is taken
  exactly when the channel is closed, and receiving does not change the channel.
\<close>

datatype chan = Open | Closed

definition make_chan :: chan where
  "make_chan = Open"

definition close_chan :: "chan \<Rightarrow> panic + chan" where
  "close_chan ch = (case ch of Open \<Rightarrow> Inr Closed | Closed \<Rightarrow> Inl CloseOfClosedChannel)"

definition select_recv :: "chan \<Rightarrow> bool" where
  "select_recv ch = (ch = Closed)"


section \<open>What a run does\<close>

text \<open>
  A record handed to a backend: the measurement, the \<^verbatim>\<open>id\<close> tag and the timestamp
  \<^verbatim>\<open>time.Unix(0, int64(iteration))\<close>. The \<^verbatim>\<open>temperature\<close> field is the wall clock and is
  left out.
\<close>

record point =
  measurement :: string
  tag_id :: goint
  timestamp :: goint

text \<open>
  The observable steps of the goroutines, in program order. A call of a backend carries
  what the backend answered.
\<close>

datatype event =
    PrintConfig string string goint goint goint
  | PrintExpected goint
  | NewClient string
  | MakeChan
  | WgAdd goint
  | Go goint
  | GoTimer
  | WgWait
  | PrintQuerying
  | CountCall string "panic + goint \<times> error option"
  | PrintResults goint goint
  | PrintRate goint
  | PrintTotalTime
  | CloseCall "error option"
  | Select bool
  | Progress goint goint
  | HttpWrite point "error option"
  | WritePoint point
  | Sleep goint
  | PrintStopping goint
  | CloseChan
  | WgDone


section \<open>The backends\<close>

text \<open>
  The InfluxDB 1 client (\<^verbatim>\<open>client.Client\<close>) is outside the program: what its calls return
  is a parameter. \<open>write_result\<close> is the error of \<^verbatim>\<open>influx.Write(bp)\<close> for the batch
  holding one point, \<open>query_result\<close> is \<^verbatim>\<open>influx.Query(q)\<close> by the text of the command
  (\<open>Inl\<close> when \<^verbatim>\<open>err != nil\<close>), \<open>close_result\<close> is \<^verbatim>\<open>influx.Close()\<close>.
  A response holds the value of \<^verbatim>\<open>response.Error()\<close> and the decoded
  \<^verbatim>\<open>Results[..].Series[..].Values[..][..]\<close>, each cell as \<^verbatim>\<open>fmt.Sprintf("%v", cell)\<close> prints it.
\<close>

record row =
  Values :: "string list list"

record result =
  Series :: "row list"

record response =
  resp_error :: "error option"
  Results :: "result list"

record influx1 =
  write_result :: "point \<Rightarrow> error option"
  query_result :: "string \<Rightarrow> error + response"
  close_result :: "error option"

text \<open>
  The InfluxDB 2 client: \<^verbatim>\<open>WritePoint\<close> is asynchronous and returns nothing; the query,
  whose text is fixed by the measurement name, gives an error or a result with
  \<^verbatim>\<open>Next()\<close>, \<^verbatim>\<open>Err()\<close> and the value of the \<^verbatim>\<open>temperature\<close> column of its first record.
\<close>

datatype flux_value = Int64 goint | NotInt64

record flux_result =
  has_next :: bool
  result_err :: "error option"
  temperature :: flux_value

record influx2 =
  flux_query :: "string \<Rightarrow> error + flux_result"

text \<open>The \<^verbatim>\<open>Writer\<close> interface (lines 17-21) and its two implementations.\<close>

datatype writer = WriterV1 influx1 | WriterV2 influx2

definition new_point :: "goint \<Rightarrow> string \<Rightarrow> goint \<Rightarrow> point" where
  "new_point id' measurementName iteration =
     \<lparr>measurement = measurementName, tag_id = id', timestamp = iteration\<rparr>"

text \<open>
  \<^verbatim>\<open>WriterV1.Write\<close> (lines 194-209): one \<^verbatim>\<open>influx.Write\<close>; the body of
  \<^verbatim>\<open>if err := ...; err != nil { }\<close> is empty and the method returns nothing.
\<close>

definition WriterV1_Write :: "influx1 \<Rightarrow> goint \<Rightarrow> string \<Rightarrow> goint \<Rightarrow> event list" where
  "WriterV1_Write p id' measurementName iteration =
     (let pt = new_point id' measurementName iteration
      in [HttpWrite pt (write_result p pt)])"

text \<open>\<^verbatim>\<open>WriterV2.Write\<close> (lines 155-163).\<close>

definition WriterV2_Write :: "influx2 \<Rightarrow> goint \<Rightarrow> string \<Rightarrow> goint \<Rightarrow> event list" where
  "WriterV2_Write p id' measurementName iteration =
     [WritePoint (new_point id' measurementName iteration)]"

text \<open>\<^verbatim>\<open>WriterV1.Count\<close> (lines 210-218).\<close>

definition WriterV1_Count :: "influx1 \<Rightarrow> string \<Rightarrow> panic + goint \<times> error option" where
  "WriterV1_Count p measurementName =
     (case query_result p (''SELECT count(*) FROM '' @ measurementName) of
        Inr response \<Rightarrow>
          if resp_error response = None then
            and_then (index (Results response) 0) (\<lambda>res.
            and_then (index (Series res) 0) (\<lambda>ser.
            and_then (index (Values ser) 0) (\<lambda>vals.
            and_then (index vals 1) (\<lambda>count.
              Inr (Atoi count)))))
          else Inr (0, None)
      | Inl err \<Rightarrow> Inr (0, None))"

text \<open>\<^verbatim>\<open>WriterV2.Count\<close> (lines 165-188).\<close>

definition WriterV2_Count :: "influx2 \<Rightarrow> string \<Rightarrow> panic + goint \<times> error option" where
  "WriterV2_Count p measurementName =
     (case flux_query p measurementName of
        Inl err \<Rightarrow> Inr (0, Some err)
      | Inr queryResult \<Rightarrow>
          if \<not> has_next queryResult then
            (case result_err queryResult of
               Some e \<Rightarrow> Inr (0, Some e)
             | None \<Rightarrow> Inr (0, Some (Error ''unknown error'')))
          else
            (case temperature queryResult of
               Int64 n \<Rightarrow> Inr (n, None)
             | NotInt64 \<Rightarrow> Inl InterfaceConversion))"

fun Writer_Write :: "writer \<Rightarrow> goint \<Rightarrow> string \<Rightarrow> goint \<Rightarrow> event list" where
  "Writer_Write (WriterV1 p) id' measurementName iteration =
     WriterV1_Write p id' measurementName iteration"
| "Writer_Write (WriterV2 p) id' measurementName iteration =
     WriterV2_Write p id' measurementName iteration"

fun Writer_Count :: "writer \<Rightarrow> string \<Rightarrow> panic + goint \<times> error option" where
  "Writer_Count (WriterV1 p) measurementName = WriterV1_Count p measurementName"
| "Writer_Count (WriterV2 p) measurementName = WriterV2_Count p measurementName"

text \<open>\<^verbatim>\<open>Close\<close> (lines 189-192 and 219).\<close>

fun Writer_Close :: "writer \<Rightarrow> error option" where
  "Writer_Close (WriterV1 p) = close_result p"
| "Writer_Close (WriterV2 p) = None"


section \<open>The worker\<close>

text \<open>
  When the deadline timer closes \<^verbatim>\<open>stopExecution\<close> is decided by the clock and the
  scheduler. For one worker it is the number of its \<^verbatim>\<open>select\<close>s that come before the
  close: \<open>Some n\<close> when the first \<open>n\<close> selects find the channel open and the close happens
  before the next one, \<open>None\<close> when the worker never sees it closed. The channel a select
  sees is then the fresh channel, or the channel after the timer's \<^verbatim>\<open>close\<close>.
\<close>

definition stopExecution :: "nat option \<Rightarrow> nat \<Rightarrow> chan" where
  "stopExecution closed_before k =
     (case closed_before of
        None \<Rightarrow> make_chan
      | Some n \<Rightarrow>
          if k < n then make_chan
          else (case close_chan make_chan of Inr ch \<Rightarrow> ch | Inl _ \<Rightarrow> make_chan))"

text \<open>
  The inner loop of \<^verbatim>\<open>doLoad\<close> (lines 142-149), from \<open>j\<close> up to \<open>end\<close>; \<open>k\<close> counts the
  selects the worker has done. The result is the events of the loop, the new count and
  whether the worker returned from inside the loop.
\<close>

function inner_loop ::
  "writer \<Rightarrow> nat option \<Rightarrow> goint \<Rightarrow> string \<Rightarrow> goint \<Rightarrow> goint \<Rightarrow> nat \<Rightarrow> event list \<times> nat \<times> bool"
where
  "inner_loop influx stop id' measurementName j end' k =
     (if j <s end' then
        (if select_recv (stopExecution stop k) then ([Select True], Suc k, True)
         else
           (case inner_loop influx stop id' measurementName (j + 1) end' (Suc k) of
              (es, k', returned) \<Rightarrow>
                (Select False # Writer_Write influx id' measurementName j @ es, k', returned)))
      else ([], k, False))"
  by pat_completeness auto

lemma sint_add_no_wrap:
  fixes a b :: goint
  assumes "- (2 ^ 63) \<le> sint a + sint b" and "sint a + sint b < 2 ^ 63"
  shows "sint (a + b) = sint a + sint b"
  using assms by (simp add: sint_word_ariths signed_take_bit_int_eq_self)

lemma sint_mult_no_wrap:
  fixes a b :: goint
  assumes "- (2 ^ 63) \<le> sint a * sint b" and "sint a * sint b < 2 ^ 63"
  shows "sint (a * b) = sint a * sint b"
  using assms by (simp add: sint_word_ariths signed_take_bit_int_eq_self)

lemma sint_goint_bounds:
  fixes x :: goint
  shows "- (2 ^ 63) \<le> sint x" and "sint x < 2 ^ 63"
  using sint_ge [of x] sint_lt [of x] by simp_all

lemma sint_succ:
  fixes j e :: goint
  assumes "j <s e"
  shows "sint (j + 1) = sint j + 1"
proof -
  from assms have "sint j < sint e" by (simp add: word_sless_alt)
  with sint_goint_bounds [of e] sint_goint_bounds [of j]
  show ?thesis by (simp add: sint_add_no_wrap)
qed

termination inner_loop
proof (relation "measure (\<lambda>(influx, stop, id', measurementName, j, end', k). nat (sint end' - sint j))")
  show "wf (measure (\<lambda>(influx, stop, id', measurementName, j, end', k). nat (sint end' - sint j)))"
    by simp
next
  fix influx :: writer and stop :: "nat option" and id' :: goint and measurementName :: string
    and j end' :: goint and k :: nat
  assume "j <s end'"
  then show "((influx, stop, id', measurementName, j + 1, end', Suc k),
              (influx, stop, id', measurementName, j, end', k))
             \<in> measure (\<lambda>(influx, stop, id', measurementName, j, end', k). nat (sint end' - sint j))"
    by (simp add: sint_succ word_sless_alt)
qed

text \<open>
  The outer loop of \<^verbatim>\<open>doLoad\<close> (lines 130-152), from \<open>i\<close>. With \<^verbatim>\<open>secondsCount\<close> the largest
  \<^verbatim>\<open>int\<close>, \<^verbatim>\<open>i++\<close> wraps and \<^verbatim>\<open>i <= secondsCount\<close> never fails, so the loop takes fuel:
  one unit per iteration. The result is the events so far and whether the worker has
  returned (\<open>False\<close>: the fuel ran out with the loop still running).
\<close>

fun outer_loop ::
  "nat \<Rightarrow> writer \<Rightarrow> nat option \<Rightarrow> goint \<Rightarrow> string \<Rightarrow> goint \<Rightarrow> goint \<Rightarrow> goint \<Rightarrow> nat \<Rightarrow> event list \<times> bool"
where
  "outer_loop 0 influx stop id' measurementName secondsCount lineProtocolsCount i k =
     ([], \<not> i \<le>s secondsCount)"
| "outer_loop (Suc fuel) influx stop id' measurementName secondsCount lineProtocolsCount i k =
     (if i \<le>s secondsCount then
        (if select_recv (stopExecution stop k) then ([Select True], True)
         else
           (let progress = (if id' = 1 then [Progress i secondsCount] else []);
                start = i * lineProtocolsCount;
                end' = start + lineProtocolsCount
            in case inner_loop influx stop id' measurementName start end' (Suc k) of
                 (es, k', returned) \<Rightarrow>
                   if returned then (Select False # progress @ es, True)
                   else
                     (case outer_loop fuel influx stop id' measurementName secondsCount
                             lineProtocolsCount (i + 1) k' of
                        (es', done) \<Rightarrow> (Select False # progress @ es @ Sleep 1 # es', done))))
      else ([], True))"

text \<open>
  \<^verbatim>\<open>doLoad\<close> (lines 127-153): the loop from \<open>i = 1\<close>, then the deferred \<^verbatim>\<open>wg.Done()\<close> on
  return.
\<close>

definition doLoad ::
  "nat \<Rightarrow> nat option \<Rightarrow> goint \<Rightarrow> string \<Rightarrow> goint \<Rightarrow> goint \<Rightarrow> writer \<Rightarrow> event list \<times> bool"
where
  "doLoad fuel stop id' measurementName secondsCount lineProtocolsCount influx =
     (case outer_loop fuel influx stop id' measurementName secondsCount lineProtocolsCount 1 0 of
        (es, done) \<Rightarrow> (if done then es @ [WgDone] else es, done))"


section \<open>The harness\<close>

text \<open>The flags of the command line (lines 43-51).\<close>

record config =
  writerType :: string
  threadsCount :: goint
  secondsCount :: goint
  batchSize :: goint
  authToken :: string
  lineProtocolsCount :: goint
  skipCount :: bool
  measurementName :: string

text \<open>
  What the run meets outside the program: the result of \<^verbatim>\<open>client.NewHTTPClient\<close> (an
  error or the InfluxDB 1 client), the InfluxDB 2 client, and for each worker id where
  the close of the stop channel falls among its selects.
\<close>

record env =
  http_client :: "error + influx1"
  client_v2 :: influx2
  closed_before :: "goint \<Rightarrow> nat option"

text \<open>
  How a run stands: \<^verbatim>\<open>main\<close> returned, it panicked, or the fuel ran out with \<^verbatim>\<open>main\<close>
  still spawning or waiting.
\<close>

datatype status = Exited | Panicked panic | Running

record outcome =
  events :: "event list"
  workers :: "(goint \<times> event list) list"
  status :: status

text \<open>The choice of the writer (lines 69-83).\<close>

definition new_writer :: "config \<Rightarrow> env \<Rightarrow> event list \<times> (panic + writer)" where
  "new_writer cfg e =
     (if writerType cfg = ''CLIENT_GO_V2'' then
        ([NewClient ''http://localhost:9999''], Inr (WriterV2 (client_v2 e)))
      else
        (case http_client e of
           Inl err \<Rightarrow> ([NewClient ''http://localhost:8086''], Inl (PanicError err))
         | Inr influx \<Rightarrow> ([NewClient ''http://localhost:8086''], Inr (WriterV1 influx))))"

text \<open>
  The loop that starts the workers (lines 91-93): the ids it has passed to \<^verbatim>\<open>go doLoad\<close>,
  and whether it has ended.
\<close>

fun spawn_loop :: "nat \<Rightarrow> goint \<Rightarrow> goint \<Rightarrow> goint list \<times> bool" where
  "spawn_loop 0 i n = ([], \<not> i \<le>s n)"
| "spawn_loop (Suc fuel) i n =
     (if i \<le>s n then
        (case spawn_loop fuel (i + 1) n of (ids, ended) \<Rightarrow> (i # ids, ended))
      else ([], True))"


text \<open>
  Counting (lines 103-120). Lines 113-116 print before line 117 divides by
  \<^verbatim>\<open>*secondsCount\<close>. The result is the events and the panic, if any.
\<close>

definition counting :: "config \<Rightarrow> writer \<Rightarrow> goint \<Rightarrow> event list \<times> panic option" where
  "counting cfg w expected =
     (if \<not> skipCount cfg then
        (let r = Writer_Count w (measurementName cfg);
             ev = [PrintQuerying, CountCall (measurementName cfg) r]
         in case r of
              Inl p \<Rightarrow> (ev, Some p)
            | Inr (n, Some err) \<Rightarrow> (ev, Some (PanicError err))
            | Inr (n, None) \<Rightarrow>
                (case go_div n (secondsCount cfg) of
                   Inl p \<Rightarrow> (ev @ [PrintResults expected n], Some p)
                 | Inr rate \<Rightarrow>
                     (ev @ [PrintResults expected n, PrintRate rate, PrintTotalTime], None)))
      else ([], None))"

text \<open>Closing (lines 122-124).\<close>

definition closing :: "writer \<Rightarrow> event list \<times> panic option" where
  "closing w =
     (let r = Writer_Close w
      in case r of
           Some err \<Rightarrow> ([CloseCall r], Some (PanicError err))
         | None \<Rightarrow> ([CloseCall r], None))"

text \<open>
  \<^verbatim>\<open>main\<close> (lines 42-125). \<^verbatim>\<open>wg.Add\<close> panics on a negative counter (the counter is taken
  as an integer without a width). \<^verbatim>\<open>wg.Wait()\<close> returns once every started worker has run
  its \<^verbatim>\<open>wg.Done()\<close>. The fuel bounds the iterations of the loop that starts the workers
  and of each worker's outer loop. The events of \<^verbatim>\<open>main\<close> are in program order; each
  worker has its own list, since nothing orders the events of two goroutines. The
  deadline timer runs beside them: when its close falls is the \<open>closed_before\<close> of the
  environment.
\<close>

definition run_workers :: "nat \<Rightarrow> config \<Rightarrow> env \<Rightarrow> writer \<Rightarrow> goint list \<Rightarrow> (goint \<times> event list \<times> bool) list" where
  "run_workers fuel cfg e w ids =
     map (\<lambda>i. (i, doLoad fuel (closed_before e i) i (measurementName cfg) (secondsCount cfg)
                    (lineProtocolsCount cfg) w)) ids"

definition main :: "nat \<Rightarrow> config \<Rightarrow> env \<Rightarrow> outcome" where
  "main fuel cfg e =
     (let expected = threadsCount cfg * secondsCount cfg * lineProtocolsCount cfg;
          ev0 = [PrintConfig (writerType cfg) (measurementName cfg) (threadsCount cfg)
                   (secondsCount cfg) (lineProtocolsCount cfg),
                 PrintExpected expected]
      in case new_writer cfg e of
           (ev1, Inl p) \<Rightarrow> \<lparr>events = ev0 @ ev1, workers = [], status = Panicked p\<rparr>
         | (ev1, Inr w) \<Rightarrow>
             if threadsCount cfg <s 0 then
               \<lparr>events = ev0 @ ev1 @ [MakeChan, WgAdd (threadsCount cfg)], workers = [],
                status = Panicked NegativeWaitGroupCounter\<rparr>
             else
               (case spawn_loop fuel 1 (threadsCount cfg) of
                  (ids, ended) \<Rightarrow>
                    let ws = run_workers fuel cfg e w ids;
                        traces = map (\<lambda>(i, es, done). (i, es)) ws;
                        ev2 = ev0 @ ev1 @ [MakeChan, WgAdd (threadsCount cfg)] @ map Go ids
                    in if \<not> ended then \<lparr>events = ev2, workers = traces, status = Running\<rparr>
                       else if \<not> list_all (\<lambda>(i, es, done). done) ws then
                         \<lparr>events = ev2 @ [GoTimer, WgWait], workers = traces, status = Running\<rparr>
                       else
                         (case counting cfg w expected of
                            (ev3, Some p) \<Rightarrow>
                              \<lparr>events = ev2 @ [GoTimer, WgWait] @ ev3, workers = traces,
                               status = Panicked p\<rparr>
                          | (ev3, None) \<Rightarrow>
                              (case closing w of
                                 (ev4, Some p) \<Rightarrow>
                                   \<lparr>events = ev2 @ [GoTimer, WgWait] @ ev3 @ ev4,
                                    workers = traces, status = Panicked p\<rparr>
                               | (ev4, None) \<Rightarrow>
                                   \<lparr>events = ev2 @ [GoTimer, WgWait] @ ev3 @ ev4,
                                    workers = traces, status = Exited\<rparr>))))"


section \<open>Reading a run\<close>

text \<open>The values printed as \<^verbatim>\<open>expected size\<close>, in order.\<close>

fun expected_values :: "event list \<Rightarrow> goint list" where
  "expected_values [] = []"
| "expected_values (PrintExpected x # es) = x # expected_values es"
| "expected_values (ev # es) = expected_values es"

fun is_Go :: "event \<Rightarrow> bool" where
  "is_Go (Go i) = True"
| "is_Go ev = False"

fun is_CloseCall :: "event \<Rightarrow> bool" where
  "is_CloseCall (CloseCall r) = True"
| "is_CloseCall ev = False"

text \<open>A submission: a call of the backend's write by \<^verbatim>\<open>Write\<close>.\<close>

fun is_submit :: "event \<Rightarrow> bool" where
  "is_submit (HttpWrite pt r) = True"
| "is_submit (WritePoint pt) = True"
| "is_submit ev = False"


text \<open>The tick sequence number of a submission.\<close>

fun tick_of :: "event \<Rightarrow> goint option" where
  "tick_of (HttpWrite pt r) = Some (timestamp pt)"
| "tick_of (WritePoint pt) = Some (timestamp pt)"
| "tick_of ev = None"

definition ticks :: "event list \<Rightarrow> goint list" where
  "ticks es = List.map_filter tick_of es"



text \<open>
  The first cell that \<^verbatim>\<open>WriterV1.Count\<close> reads, \<^verbatim>\<open>Results[0].Series[0].Values[0][1]\<close>, is
  not there.
\<close>

definition first_cell_missing :: "response \<Rightarrow> bool" where
  "first_cell_missing response =
     (case Results response of
        [] \<Rightarrow> True
      | res # _ \<Rightarrow>
          (case Series res of
             [] \<Rightarrow> True
           | ser # _ \<Rightarrow>
               (case Values ser of
                  [] \<Rightarrow> True
                | vals # _ \<Rightarrow> length vals < 2)))"

text \<open>
  The tick arithmetic of a worker stays inside \<^verbatim>\<open>int\<close>: the loop counter does not wrap
  and neither do \<^verbatim>\<open>i * lineProtocolsCount\<close> and \<^verbatim>\<open>start + lineProtocolsCount\<close> for the
  seconds \<open>1, ..., secondsCount\<close> (nothing to ask when there is no second to run).
\<close>

definition tick_range_ok :: "goint \<Rightarrow> goint \<Rightarrow> bool" where
  "tick_range_ok secs lpc \<longleftrightarrow>
     sint secs < 1 \<or>
     (sint secs < 2 ^ 63 - 1 \<and>
      - (2 ^ 63) \<le> (sint secs + 1) * sint lpc \<and> (sint secs + 1) * sint lpc < 2 ^ 63)"

text \<open>
  The ticks of the specification: from the base \<open>lpc\<close>, second \<open>s\<close> (counted from 0)
  holds the \<open>lpc\<close> ticks from \<open>lpc + s * lpc\<close> on.
\<close>

definition tick_schedule :: "goint \<Rightarrow> goint \<Rightarrow> goint list" where
  "tick_schedule secs lpc =
     concat (map (\<lambda>s. map (\<lambda>t. lpc + of_nat s * lpc + of_nat t) [0..<nat (sint lpc)])
               [0..<nat (sint secs)])"

text \<open>The first events of every run: the configuration and the expected size.\<close>

definition startup :: "config \<Rightarrow> event list" where
  "startup cfg =
     [PrintConfig (writerType cfg) (measurementName cfg) (threadsCount cfg)
        (secondsCount cfg) (lineProtocolsCount cfg),
      PrintExpected (threadsCount cfg * secondsCount cfg * lineProtocolsCount cfg)]"



text \<open>The progress line of the worker with id 1 (lines 136-138).\<close>

definition progress :: "goint \<Rightarrow> goint \<Rightarrow> goint \<Rightarrow> event list" where
  "progress i c secs = (if i = 1 then [Progress c secs] else [])"

text \<open>The events a worker can produce.\<close>

fun is_worker_event :: "event \<Rightarrow> bool" where
  "is_worker_event (Select b) = True"
| "is_worker_event (Progress c s) = True"
| "is_worker_event (HttpWrite pt r) = True"
| "is_worker_event (WritePoint pt) = True"
| "is_worker_event (Sleep s) = True"
| "is_worker_event WgDone = True"
| "is_worker_event ev = False"

text \<open>The list ends with the one select that found the stop channel closed.\<close>

definition halted :: "event list \<Rightarrow> bool" where
  "halted es \<longleftrightarrow> (\<exists>xs. es = xs @ [Select True] \<and> Select True \<notin> set xs)"

text \<open>The \<open>n\<close> consecutive tick numbers from \<open>j\<close> on.\<close>

definition run_from :: "goint \<Rightarrow> nat \<Rightarrow> goint list" where
  "run_from j n = map (\<lambda>t. j + of_nat t) [0..<n]"



section \<open>Concrete runs\<close>

text \<open>An InfluxDB 1 server that accepts every write and counts six records.\<close>

definition influx1_ok :: influx1 where
  "influx1_ok =
     \<lparr>write_result = (\<lambda>pt. None),
      query_result = (\<lambda>q. Inr \<lparr>resp_error = None,
                              Results = [\<lparr>Series = [\<lparr>Values = [[''0'', ''6'']]\<rparr>]\<rparr>]\<rparr>),
      close_result = None\<rparr>"

text \<open>One that refuses every write and every query.\<close>

definition influx1_failing :: influx1 where
  "influx1_failing =
     \<lparr>write_result = (\<lambda>pt. Some (Error ''write failed'')),
      query_result = (\<lambda>q. Inl (Error ''connection refused'')),
      close_result = None\<rparr>"

text \<open>One whose count query succeeds and matches no record: a result with no series.\<close>

definition influx1_empty :: influx1 where
  "influx1_empty =
     \<lparr>write_result = (\<lambda>pt. None),
      query_result = (\<lambda>q. Inr \<lparr>resp_error = None, Results = [\<lparr>Series = []\<rparr>]\<rparr>),
      close_result = None\<rparr>"

text \<open>An InfluxDB 2 server whose query fails.\<close>

definition influx2_failing :: influx2 where
  "influx2_failing = \<lparr>flux_query = (\<lambda>m. Inl (Error ''query failed''))\<rparr>"

text \<open>No worker ever sees the stop channel closed.\<close>

definition env_plain :: env where
  "env_plain =
     \<lparr>http_client = Inr influx1_ok, client_v2 = influx2_failing,
      closed_before = (\<lambda>i. None)\<rparr>"

text \<open>Scenario A: one worker, two seconds, three ticks per second, no counting.\<close>

definition scenarioA :: config where
  "scenarioA =
     \<lparr>writerType = ''CLIENT_GO_V1'', threadsCount = 1, secondsCount = 2, batchSize = 1000,
      authToken = ''my-token'', lineProtocolsCount = 3, skipCount = True,
      measurementName = ''sensor''\<rparr>"

text \<open>Scenario D: counting on, with the InfluxDB 2 writer, whose query fails.\<close>

definition scenarioD :: config where
  "scenarioD =
     \<lparr>writerType = ''CLIENT_GO_V2'', threadsCount = 1, secondsCount = 1, batchSize = 1000,
      authToken = ''my-token'', lineProtocolsCount = 1, skipCount = False,
      measurementName = ''sensor''\<rparr>"



text \<open>Counting on, with the InfluxDB 1 writer.\<close>

definition count_v1 :: config where
  "count_v1 =
     \<lparr>writerType = ''CLIENT_GO_V1'', threadsCount = 1, secondsCount = 1, batchSize = 1000,
      authToken = ''my-token'', lineProtocolsCount = 1, skipCount = False,
      measurementName = ''sensor''\<rparr>"

text \<open>The InfluxDB 1 server refuses everything.\<close>

definition env_failing :: env where
  "env_failing =
     \<lparr>http_client = Inr influx1_failing, client_v2 = influx2_failing,
      closed_before = (\<lambda>i. None)\<rparr>"

text \<open>The InfluxDB 1 server answers the count query with no series.\<close>

definition env_empty :: env where
  "env_empty =
     \<lparr>http_client = Inr influx1_empty, client_v2 = influx2_failing,
      closed_before = (\<lambda>i. None)\<rparr>"




section \<open>The shape of a run\<close>

text \<open>The seven ways \<^verbatim>\<open>main\<close> can stand, with the events of each.\<close>

lemma main_shape [case_names client_failed negative spawning waiting count_panic close_panic exited]:
  assumes "\<And>ev1 p. new_writer cfg e = (ev1, Inl p) \<Longrightarrow>
             main fuel cfg e = \<lparr>events = startup cfg @ ev1, workers = [], status = Panicked p\<rparr> \<Longrightarrow> thesis"
    and "\<And>ev1 w. new_writer cfg e = (ev1, Inr w) \<Longrightarrow> threadsCount cfg <s 0 \<Longrightarrow>
             main fuel cfg e = \<lparr>events = startup cfg @ ev1 @ [MakeChan, WgAdd (threadsCount cfg)],
               workers = [], status = Panicked NegativeWaitGroupCounter\<rparr> \<Longrightarrow> thesis"
    and "\<And>ev1 w ids. new_writer cfg e = (ev1, Inr w) \<Longrightarrow> \<not> threadsCount cfg <s 0 \<Longrightarrow>
             spawn_loop fuel 1 (threadsCount cfg) = (ids, False) \<Longrightarrow>
             main fuel cfg e = \<lparr>events = startup cfg @ ev1 @ [MakeChan, WgAdd (threadsCount cfg)] @ map Go ids,
               workers = map (\<lambda>(i, es, done). (i, es)) (run_workers fuel cfg e w ids),
               status = Running\<rparr> \<Longrightarrow> thesis"
    and "\<And>ev1 w ids. new_writer cfg e = (ev1, Inr w) \<Longrightarrow> \<not> threadsCount cfg <s 0 \<Longrightarrow>
             spawn_loop fuel 1 (threadsCount cfg) = (ids, True) \<Longrightarrow>
             \<not> list_all (\<lambda>(i, es, done). done) (run_workers fuel cfg e w ids) \<Longrightarrow>
             main fuel cfg e = \<lparr>events = startup cfg @ ev1 @ [MakeChan, WgAdd (threadsCount cfg)] @ map Go ids
                 @ [GoTimer, WgWait],
               workers = map (\<lambda>(i, es, done). (i, es)) (run_workers fuel cfg e w ids),
               status = Running\<rparr> \<Longrightarrow> thesis"
    and "\<And>ev1 w ids ev3 p. new_writer cfg e = (ev1, Inr w) \<Longrightarrow> \<not> threadsCount cfg <s 0 \<Longrightarrow>
             spawn_loop fuel 1 (threadsCount cfg) = (ids, True) \<Longrightarrow>
             list_all (\<lambda>(i, es, done). done) (run_workers fuel cfg e w ids) \<Longrightarrow>
             counting cfg w (threadsCount cfg * secondsCount cfg * lineProtocolsCount cfg) = (ev3, Some p) \<Longrightarrow>
             main fuel cfg e = \<lparr>events = startup cfg @ ev1 @ [MakeChan, WgAdd (threadsCount cfg)] @ map Go ids
                 @ [GoTimer, WgWait] @ ev3,
               workers = map (\<lambda>(i, es, done). (i, es)) (run_workers fuel cfg e w ids),
               status = Panicked p\<rparr> \<Longrightarrow> thesis"
    and "\<And>ev1 w ids ev3 ev4 p. new_writer cfg e = (ev1, Inr w) \<Longrightarrow> \<not> threadsCount cfg <s 0 \<Longrightarrow>
             spawn_loop fuel 1 (threadsCount cfg) = (ids, True) \<Longrightarrow>
             list_all (\<lambda>(i, es, done). done) (run_workers fuel cfg e w ids) \<Longrightarrow>
             counting cfg w (threadsCount cfg * secondsCount cfg * lineProtocolsCount cfg) = (ev3, None) \<Longrightarrow>
             closing w = (ev4, Some p) \<Longrightarrow>
             main fuel cfg e = \<lparr>events = startup cfg @ ev1 @ [MakeChan, WgAdd (threadsCount cfg)] @ map Go ids
                 @ [GoTimer, WgWait] @ ev3 @ ev4,
               workers = map (\<lambda>(i, es, done). (i, es)) (run_workers fuel cfg e w ids),
               status = Panicked p\<rparr> \<Longrightarrow> thesis"
    and "\<And>ev1 w ids ev3 ev4. new_writer cfg e = (ev1, Inr w) \<Longrightarrow> \<not> threadsCount cfg <s 0 \<Longrightarrow>
             spawn_loop fuel 1 (threadsCount cfg) = (ids, True) \<Longrightarrow>
             list_all (\<lambda>(i, es, done). done) (run_workers fuel cfg e w ids) \<Longrightarrow>
             counting cfg w (threadsCount cfg * secondsCount cfg * lineProtocolsCount cfg) = (ev3, None) \<Longrightarrow>
             closing w = (ev4, None) \<Longrightarrow>
             main fuel cfg e = \<lparr>events = startup cfg @ ev1 @ [MakeChan, WgAdd (threadsCount cfg)] @ map Go ids
                 @ [GoTimer, WgWait] @ ev3 @ ev4,
               workers = map (\<lambda>(i, es, done). (i, es)) (run_workers fuel cfg e w ids),
               status = Exited\<rparr> \<Longrightarrow> thesis"
  shows thesis
proof (cases "new_writer cfg e")
  case (Pair ev1 r)
  show ?thesis
  proof (cases r)
    case (Inl p)
    with Pair show ?thesis
      by (intro assms(1) [of ev1 p]) (simp_all add: main_def startup_def)
  next
    case (Inr w)
    note nw = Pair [unfolded Inr]
    show ?thesis
    proof (cases "threadsCount cfg <s 0")
      case True
      with nw show ?thesis
        by (intro assms(2) [of ev1 w]) (simp_all add: main_def startup_def)
    next
      case neg: False
      obtain ids ended where sp: "spawn_loop fuel 1 (threadsCount cfg) = (ids, ended)"
        by (cases "spawn_loop fuel 1 (threadsCount cfg)")
      show ?thesis
      proof (cases ended)
        case False
        with nw neg sp show ?thesis
          by (intro assms(3) [of ev1 w ids]) (simp_all add: main_def startup_def Let_def)
      next
        case ended: True
        show ?thesis
        proof (cases "list_all (\<lambda>(i, es, done). done) (run_workers fuel cfg e w ids)")
          case False
          with nw neg sp ended show ?thesis
            by (intro assms(4) [of ev1 w ids]) (simp_all add: main_def startup_def Let_def)
        next
          case all_done: True
          obtain ev3 r3 where c: "counting cfg w (threadsCount cfg * secondsCount cfg * lineProtocolsCount cfg) = (ev3, r3)"
            by (cases "counting cfg w (threadsCount cfg * secondsCount cfg * lineProtocolsCount cfg)")
          show ?thesis
          proof (cases r3)
            case (Some p)
            with nw neg sp ended all_done c show ?thesis
              by (intro assms(5) [of ev1 w ids ev3 p]) (simp_all add: main_def startup_def Let_def)
          next
            case None
            obtain ev4 r4 where cl: "closing w = (ev4, r4)"
              by (cases "closing w")
            show ?thesis
            proof (cases r4)
              case (Some p)
              with nw neg sp ended all_done c None cl show ?thesis
                by (intro assms(6) [of ev1 w ids ev3 ev4 p]) (simp_all add: main_def startup_def Let_def)
            next
              case r4: None
              with nw neg sp ended all_done c None cl show ?thesis
                by (intro assms(7) [of ev1 w ids ev3 ev4]) (simp_all add: main_def startup_def Let_def)
            qed
          qed
        qed
      qed
    qed
  qed
qed


section \<open>Lemmas about the phases of a run\<close>

lemma new_writer_events:
  assumes "new_writer cfg e = (ev1, r)"
  shows "ev1 = [NewClient ''http://localhost:9999''] \<or> ev1 = [NewClient ''http://localhost:8086'']"
  using assms by (auto simp: new_writer_def split: if_splits sum.splits)

lemma counting_skipped:
  "skipCount cfg \<Longrightarrow> counting cfg w x = ([], None)"
  by (simp add: counting_def)

lemma closing_events:
  "closing w = (ev4, r) \<Longrightarrow> ev4 = [CloseCall (Writer_Close w)]"
  by (auto simp: closing_def Let_def split: option.splits)

lemma counting_error:
  assumes "Writer_Count w (measurementName cfg) = Inr (n, Some err)" and "\<not> skipCount cfg"
  shows "counting cfg w x =
           ([PrintQuerying, CountCall (measurementName cfg) (Inr (n, Some err))], Some (PanicError err))"
  using assms by (simp add: counting_def Let_def)

lemma expected_values_append:
  "expected_values (xs @ ys) = expected_values xs @ expected_values ys"
  by (induction xs rule: expected_values.induct) simp_all

lemma expected_values_Go: "expected_values (map Go ids) = []"
  by (induction ids) simp_all

lemma expected_values_counting:
  "counting cfg w x = (ev3, r) \<Longrightarrow> expected_values ev3 = []"
  by (auto simp: counting_def Let_def split: sum.splits prod.splits option.splits if_splits)

lemma expected_values_new_writer:
  "new_writer cfg e = (ev1, r) \<Longrightarrow> expected_values ev1 = []"
  by (auto dest: new_writer_events)

lemma sint_mult3:
  fixes a b c :: goint
  assumes "- (2 ^ 63) \<le> sint a * sint b * sint c" and "sint a * sint b * sint c < 2 ^ 63"
  shows "sint (a * b * c) = sint a * sint b * sint c"
proof -
  have "sint (a * b * c) = signed_take_bit 63 (sint (a * b) * sint c)"
    by (simp add: sint_word_ariths)
  also have "\<dots> = signed_take_bit 63 (signed_take_bit 63 (sint a * sint b) * sint c)"
    by (simp add: sint_word_ariths)
  also have "\<dots> = signed_take_bit 63 (sint a * sint b * sint c)"
    by (metis signed_take_bit_mult signed_take_bit_signed_take_bit min.idem)
  also have "\<dots> = sint a * sint b * sint c"
    using assms by (simp add: signed_take_bit_int_eq_self)
  finally show ?thesis .
qed

lemma main_expected_values:
  "expected_values (events (main fuel cfg e)) =
     [threadsCount cfg * secondsCount cfg * lineProtocolsCount cfg]"
  by (cases rule: main_shape [of cfg e fuel])
    (auto simp: expected_values_append expected_values_Go startup_def
      dest: expected_values_counting expected_values_new_writer closing_events)

lemma main_events_startup:
  "\<exists>rest. events (main fuel cfg e) = startup cfg @ rest"
  by (cases rule: main_shape [of cfg e fuel]) auto


lemma counting_CountCall:
  assumes "counting cfg w x = (ev3, res)" and "CountCall n r \<in> set ev3"
  shows "\<not> skipCount cfg \<and> n = measurementName cfg \<and> r = Writer_Count w (measurementName cfg)"
  using assms
  by (auto simp: counting_def Let_def split: sum.splits prod.splits option.splits if_splits)

lemma counting_panic:
  assumes "Writer_Count w (measurementName cfg) = Inl p" and "\<not> skipCount cfg"
  shows "counting cfg w x = ([PrintQuerying, CountCall (measurementName cfg) (Inl p)], Some p)"
  using assms by (simp add: counting_def Let_def)

lemma counting_zero:
  assumes "Writer_Count w (measurementName cfg) = Inr (0, None)" and "\<not> skipCount cfg"
  shows "counting cfg w x =
           (if secondsCount cfg = 0
            then ([PrintQuerying, CountCall (measurementName cfg) (Inr (0, None)), PrintResults x 0],
                  Some DivideByZero)
            else ([PrintQuerying, CountCall (measurementName cfg) (Inr (0, None)), PrintResults x 0,
                   PrintRate 0, PrintTotalTime], None))"
  using assms by (simp add: counting_def Let_def go_div_def)

lemma main_CountCall:
  assumes "CountCall n r \<in> set (events (main fuel cfg e))"
  obtains ev1 w ids ev3 res rest where "new_writer cfg e = (ev1, Inr w)"
    and "counting cfg w (threadsCount cfg * secondsCount cfg * lineProtocolsCount cfg) = (ev3, res)"
    and "\<not> skipCount cfg" and "r = Writer_Count w (measurementName cfg)"
    and "events (main fuel cfg e) =
           startup cfg @ ev1 @ [MakeChan, WgAdd (threadsCount cfg)] @ map Go ids @ [GoTimer, WgWait]
             @ ev3 @ rest"
    and "res = None \<Longrightarrow> rest = [CloseCall (Writer_Close w)]"
    and "res = None \<Longrightarrow> status (main fuel cfg e)
           = (case Writer_Close w of None \<Rightarrow> Exited | Some err \<Rightarrow> Panicked (PanicError err))"
    and "\<And>p. res = Some p \<Longrightarrow> rest = [] \<and> status (main fuel cfg e) = Panicked p"
proof (cases rule: main_shape [of cfg e fuel])
  case (client_failed ev1 p)
  with assms show ?thesis by (auto simp: startup_def dest: new_writer_events)
next
  case (negative ev1 w)
  with assms show ?thesis by (auto simp: startup_def dest: new_writer_events)
next
  case (spawning ev1 w ids)
  with assms show ?thesis by (auto simp: startup_def dest: new_writer_events)
next
  case (waiting ev1 w ids)
  with assms show ?thesis by (auto simp: startup_def dest: new_writer_events)
next
  case (count_panic ev1 w ids ev3 p)
  with assms have "CountCall n r \<in> set ev3"
    by (auto simp: startup_def dest: new_writer_events)
  with count_panic show ?thesis
    by (intro that [of ev1 w ev3 "Some p" ids "[]"]) (auto dest: counting_CountCall)
next
  case (close_panic ev1 w ids ev3 ev4 p)
  with assms have "CountCall n r \<in> set ev3"
    by (auto simp: startup_def dest: new_writer_events closing_events)
  with close_panic show ?thesis
    by (intro that [of ev1 w ev3 None ids ev4])
       (auto dest: counting_CountCall closing_events simp: closing_def Let_def split: option.splits)
next
  case (exited ev1 w ids ev3 ev4)
  with assms have "CountCall n r \<in> set ev3"
    by (auto simp: startup_def dest: new_writer_events closing_events)
  with exited show ?thesis
    by (intro that [of ev1 w ev3 None ids ev4])
       (auto dest: counting_CountCall closing_events simp: closing_def Let_def split: option.splits)
qed

lemma index_Nil: "index [] i = Inl IndexOutOfRange"
  by (simp add: index_def)

lemma index_Cons_0: "index (x # xs) 0 = Inr x"
  by (simp add: index_def)

section \<open>Lemmas about the worker\<close>

declare inner_loop.simps [simp del]

lemma Writer_Write_single:
  "\<exists>ev. Writer_Write w i n j = [ev] \<and> is_submit ev \<and> tick_of ev = Some j \<and> ev \<noteq> Select True"
  by (cases w) (simp_all add: WriterV1_Write_def WriterV2_Write_def new_point_def Let_def)

lemma inner_loop_unfold:
  "inner_loop w stop i n j e k =
     (if j <s e then
        (if select_recv (stopExecution stop k) then ([Select True], Suc k, True)
         else (Select False # Writer_Write w i n j @ fst (inner_loop w stop i n (j + 1) e (Suc k)),
               fst (snd (inner_loop w stop i n (j + 1) e (Suc k))),
               snd (snd (inner_loop w stop i n (j + 1) e (Suc k)))))
      else ([], k, False))"
  by (subst inner_loop.simps) (simp split: prod.splits)







lemma outer_loop_unfold:
  "outer_loop (Suc fuel) w stop i n secs lpc c k =
     (if c \<le>s secs then
        (if select_recv (stopExecution stop k) then ([Select True], True)
         else if snd (snd (inner_loop w stop i n (c * lpc) (c * lpc + lpc) (Suc k))) then
           (Select False # progress i c secs
              @ fst (inner_loop w stop i n (c * lpc) (c * lpc + lpc) (Suc k)), True)
         else
           (Select False # progress i c secs
              @ fst (inner_loop w stop i n (c * lpc) (c * lpc + lpc) (Suc k))
              @ Sleep 1 # fst (outer_loop fuel w stop i n secs lpc (c + 1)
                   (fst (snd (inner_loop w stop i n (c * lpc) (c * lpc + lpc) (Suc k))))),
            snd (outer_loop fuel w stop i n secs lpc (c + 1)
                   (fst (snd (inner_loop w stop i n (c * lpc) (c * lpc + lpc) (Suc k)))))))
      else ([], True))"
  by (simp add: Let_def progress_def split: prod.splits)

declare outer_loop.simps(2) [simp del]



lemma doLoad_unfold:
  "doLoad fuel stop i n secs lpc w =
     (if snd (outer_loop fuel w stop i n secs lpc 1 0)
      then (fst (outer_loop fuel w stop i n secs lpc 1 0) @ [WgDone], True)
      else (fst (outer_loop fuel w stop i n secs lpc 1 0), False))"
  by (simp add: doLoad_def split: prod.splits)


lemma Writer_Write_worker: "list_all is_worker_event (Writer_Write w i n j)"
  by (cases w) (simp_all add: WriterV1_Write_def WriterV2_Write_def Let_def)

lemma inner_loop_worker: "list_all is_worker_event (fst (inner_loop w stop i n j e k))"
proof (induction w stop i n j e k rule: inner_loop.induct)
  case (1 w stop i n j e k)
  then show ?case
    by (subst inner_loop_unfold) (simp add: Writer_Write_worker)
qed

lemma outer_loop_worker: "list_all is_worker_event (fst (outer_loop fuel w stop i n secs lpc c k))"
proof (induction fuel arbitrary: c k)
  case 0
  show ?case by simp
next
  case (Suc fuel)
  show ?case
    by (simp add: outer_loop_unfold inner_loop_worker Suc progress_def)
qed

lemma doLoad_worker: "list_all is_worker_event (fst (doLoad fuel stop i n secs lpc w))"
  by (simp add: doLoad_unfold outer_loop_worker)

lemma halted_single: "halted [Select True]"
  by (simp add: halted_def)

lemma halted_Cons: "ev \<noteq> Select True \<Longrightarrow> halted es \<Longrightarrow> halted (ev # es)"
  unfolding halted_def
proof -
  assume a: "ev \<noteq> Select True" and "\<exists>xs. es = xs @ [Select True] \<and> Select True \<notin> set xs"
  then obtain xs where "es = xs @ [Select True]" and "Select True \<notin> set xs" by blast
  with a have "ev # es = (ev # xs) @ [Select True] \<and> Select True \<notin> set (ev # xs)" by simp
  then show "\<exists>ys. ev # es = ys @ [Select True] \<and> Select True \<notin> set ys" by blast
qed

lemma halted_append: "Select True \<notin> set xs \<Longrightarrow> halted es \<Longrightarrow> halted (xs @ es)"
  by (induction xs) (auto intro: halted_Cons)




lemma Writer_Write_clean: "Select True \<notin> set (Writer_Write w i n j)"
  using Writer_Write_single [of w i n j] by auto

lemma inner_loop_stop:
  "(if snd (snd (inner_loop w stop i n j e k))
    then halted (fst (inner_loop w stop i n j e k))
    else Select True \<notin> set (fst (inner_loop w stop i n j e k)))"
proof (induction w stop i n j e k rule: inner_loop.induct)
  case (1 w stop i n j e k)
  show ?case
  proof (cases "j <s e \<and> \<not> select_recv (stopExecution stop k)")
    case True
    with "1.IH" have ih: "(if snd (snd (inner_loop w stop i n (j + 1) e (Suc k)))
        then halted (fst (inner_loop w stop i n (j + 1) e (Suc k)))
        else Select True \<notin> set (fst (inner_loop w stop i n (j + 1) e (Suc k))))"
      by simp
    from True ih show ?thesis
      by (subst (1 2 3) inner_loop_unfold)
         (auto simp: Writer_Write_clean intro!: halted_Cons halted_append)
  next
    case False
    then show ?thesis
      by (subst (1 2 3) inner_loop_unfold) (auto simp: halted_single)
  qed
qed




lemma run_from_0: "run_from j 0 = []"
  by (simp add: run_from_def)

lemma run_from_Suc: "run_from j (Suc n) = j # run_from (j + 1) n"
proof -
  have "[0..<Suc n] = 0 # map Suc [0..<n]"
    by (simp add: upt_conv_Cons map_Suc_upt del: upt_Suc)
  then show ?thesis
    by (simp add: run_from_def comp_def add.assoc del: upt_Suc)
qed

lemma run_from_add: "run_from j (m + n) = run_from j m @ run_from (j + of_nat m) n"
proof (induction m arbitrary: j)
  case 0
  show ?case by (simp add: run_from_0)
next
  case (Suc m)
  show ?case
    using Suc [of "j + 1"] by (simp add: run_from_Suc ac_simps)
qed

lemma ticks_Nil: "ticks [] = []"
  by (simp add: ticks_def)

lemma ticks_append: "ticks (xs @ ys) = ticks xs @ ticks ys"
  by (simp add: ticks_def map_filter_def)

lemma ticks_Cons_other: "tick_of ev = None \<Longrightarrow> ticks (ev # es) = ticks es"
  by (simp add: ticks_def)

lemma ticks_Writer_Write: "ticks (Writer_Write w i n j) = [j]"
  using Writer_Write_single [of w i n j] by (auto simp: ticks_def)

lemma ticks_progress: "ticks (progress i c secs) = []"
  by (simp add: progress_def ticks_def)

lemma inner_loop_ticks:
  "prefix (ticks (fst (inner_loop w stop i n j e k))) (run_from j (nat (sint e - sint j)))
   \<and> (\<not> snd (snd (inner_loop w stop i n j e k)) \<longrightarrow>
        ticks (fst (inner_loop w stop i n j e k)) = run_from j (nat (sint e - sint j)))"
proof (induction w stop i n j e k rule: inner_loop.induct)
  case (1 w stop i n j e k)
  show ?case
  proof (cases "j <s e")
    case False
    then have "nat (sint e - sint j) = 0"
      by (simp add: word_sless_alt)
    with False show ?thesis
      by (subst (1 2 3) inner_loop_unfold) (simp add: run_from_0 ticks_Nil)
  next
    case lt: True
    then have n: "nat (sint e - sint j) = Suc (nat (sint e - sint (j + 1)))"
      by (simp add: sint_succ word_sless_alt)
    show ?thesis
    proof (cases "select_recv (stopExecution stop k)")
      case True
      with lt show ?thesis
        by (subst (1 2 3) inner_loop_unfold) (simp add: ticks_Cons_other ticks_Nil)
    next
      case False
      with lt "1.IH" have ih:
        "prefix (ticks (fst (inner_loop w stop i n (j + 1) e (Suc k))))
           (run_from (j + 1) (nat (sint e - sint (j + 1))))
         \<and> (\<not> snd (snd (inner_loop w stop i n (j + 1) e (Suc k))) \<longrightarrow>
              ticks (fst (inner_loop w stop i n (j + 1) e (Suc k)))
                = run_from (j + 1) (nat (sint e - sint (j + 1))))"
        by simp
      from lt False ih show ?thesis
        by (subst (1 2 3) inner_loop_unfold)
           (simp add: n run_from_Suc ticks_Cons_other ticks_append ticks_Writer_Write)
    qed
  qed
qed

lemma batch_bounds:
  fixes N L C :: int
  assumes "- (2 ^ 63) \<le> (N + 1) * L" and "(N + 1) * L < 2 ^ 63" and "1 \<le> C" and "C \<le> N"
  shows "- (2 ^ 63) \<le> C * L \<and> C * L < 2 ^ 63 \<and> - (2 ^ 63) \<le> C * L + L \<and> C * L + L < 2 ^ 63"
proof (cases "0 \<le> L")
  case True
  with assms have "0 \<le> C * L" by simp
  moreover note True
  moreover from True assms have "(C + 1) * L \<le> (N + 1) * L"
    by (intro mult_right_mono) simp_all
  then have "C * L + L \<le> (N + 1) * L" by (simp add: algebra_simps)
  ultimately show ?thesis using assms(1,2) by linarith
next
  case False
  then have neg: "L \<le> 0" by simp
  with assms have "C * L \<le> 0" by (simp add: mult_le_0_iff)
  moreover from neg assms have "(N + 1) * L \<le> (C + 1) * L"
    by (intro mult_right_mono_neg) simp_all
  then have "(N + 1) * L \<le> C * L + L" by (simp add: algebra_simps)
  ultimately show ?thesis using neg assms(1,2) by linarith
qed

lemma of_nat_nat_sint:
  fixes x :: goint
  assumes "0 \<le> sint x"
  shows "of_nat (nat (sint x)) = x"
proof -
  have "(of_nat (nat (sint x)) :: goint) = of_int (int (nat (sint x)))"
    by simp
  also have "\<dots> = of_int (sint x)"
    using assms by simp
  finally show ?thesis by simp
qed

lemma run_from_batch:
  "run_from (c * lpc) (nat (sint lpc) + m * nat (sint lpc))
     = run_from (c * lpc) (nat (sint lpc)) @ run_from ((c + 1) * lpc) (m * nat (sint lpc))"
proof (cases "0 \<le> sint lpc")
  case True
  then show ?thesis
    by (simp add: run_from_add of_nat_nat_sint algebra_simps)
next
  case False
  then show ?thesis by (simp add: run_from_0)
qed

lemma outer_loop_ticks:
  assumes "sint secs < 2 ^ 63 - 1"
    and "- (2 ^ 63) \<le> (sint secs + 1) * sint lpc" and "(sint secs + 1) * sint lpc < 2 ^ 63"
    and "1 \<le> sint c" and "sint c \<le> sint secs + 1"
  shows "prefix (ticks (fst (outer_loop fuel w stop i n secs lpc c k)))
           (run_from (c * lpc) (nat (sint secs + 1 - sint c) * nat (sint lpc)))
         \<and> (snd (outer_loop fuel w stop i n secs lpc c k)
              \<and> Select True \<notin> set (fst (outer_loop fuel w stop i n secs lpc c k)) \<longrightarrow>
            ticks (fst (outer_loop fuel w stop i n secs lpc c k))
              = run_from (c * lpc) (nat (sint secs + 1 - sint c) * nat (sint lpc)))"
  using assms(4,5)
proof (induction fuel arbitrary: c k)
  case 0
  then show ?case
    by (auto simp: ticks_Nil word_sle_eq run_from_0)
next
  case (Suc fuel)
  show ?case
  proof (cases "c \<le>s secs")
    case False
    with Suc.prems have "nat (sint secs + 1 - sint c) = 0"
      by (simp add: word_sle_eq)
    with False show ?thesis
      by (simp add: outer_loop_unfold ticks_Nil run_from_0)
  next
    case le: True
    then have cn: "sint c \<le> sint secs" by (simp add: word_sle_eq)
    note b = batch_bounds [OF assms(2,3) Suc.prems(1) cn]
    have start: "sint (c * lpc) = sint c * sint lpc"
      using b by (simp add: sint_mult_no_wrap)
    have fin: "sint (c * lpc + lpc) = sint c * sint lpc + sint lpc"
      using b start by (simp add: sint_add_no_wrap)
    have len: "nat (sint (c * lpc + lpc) - sint (c * lpc)) = nat (sint lpc)"
      by (simp add: start fin)
    have c1: "sint (c + 1) = sint c + 1"
      using cn assms(1) sint_goint_bounds [of c] by (simp add: sint_add_no_wrap)
    have m: "nat (sint secs + 1 - sint c) = Suc (nat (sint secs + 1 - sint (c + 1)))"
      using cn by (simp add: c1)
    let ?inner = "inner_loop w stop i n (c * lpc) (c * lpc + lpc) (Suc k)"
    let ?rest = "outer_loop fuel w stop i n secs lpc (c + 1) (fst (snd ?inner))"
    let ?m = "nat (sint secs + 1 - sint (c + 1))"
    have target: "run_from (c * lpc) (nat (sint secs + 1 - sint c) * nat (sint lpc))
        = run_from (c * lpc) (nat (sint lpc)) @ run_from ((c + 1) * lpc) (?m * nat (sint lpc))"
      by (simp add: m run_from_batch)
    have inner: "prefix (ticks (fst ?inner)) (run_from (c * lpc) (nat (sint lpc)))"
      and inner_full: "\<not> snd (snd ?inner) \<Longrightarrow> ticks (fst ?inner) = run_from (c * lpc) (nat (sint lpc))"
      using inner_loop_ticks [of w stop i n "c * lpc" "c * lpc + lpc" "Suc k"] by (simp_all add: len)
    have rest: "prefix (ticks (fst ?rest)) (run_from ((c + 1) * lpc) (?m * nat (sint lpc)))
         \<and> (snd ?rest \<and> Select True \<notin> set (fst ?rest) \<longrightarrow>
            ticks (fst ?rest) = run_from ((c + 1) * lpc) (?m * nat (sint lpc)))"
      using Suc.prems cn by (intro Suc.IH) (simp_all add: c1)
    show ?thesis
    proof (cases "select_recv (stopExecution stop k)")
      case True
      with le show ?thesis
        by (simp add: outer_loop_unfold ticks_Cons_other ticks_Nil)
    next
      case ns: False
      show ?thesis
      proof (cases "snd (snd ?inner)")
        case True
        then have "halted (fst ?inner)"
          using inner_loop_stop [of w stop i n "c * lpc" "c * lpc + lpc" "Suc k"] by simp
        then have "Select True \<in> set (fst ?inner)"
          by (auto simp: halted_def)
        with le ns True inner show ?thesis
          by (simp add: outer_loop_unfold ticks_Cons_other ticks_append ticks_progress target)
      next
        case False
        with le ns inner_full rest show ?thesis
          by (simp add: outer_loop_unfold ticks_Cons_other ticks_append ticks_progress target)
      qed
    qed
  qed
qed

lemma ticks_WgDone: "ticks (es @ [WgDone]) = ticks es"
  by (simp add: ticks_append ticks_Cons_other ticks_Nil)

lemma outer_loop_no_second:
  "\<not> c \<le>s secs \<Longrightarrow> fst (outer_loop fuel w stop i n secs lpc c k) = []"
  by (cases fuel) (simp_all add: outer_loop_unfold)

lemma doLoad_ticks:
  assumes "tick_range_ok secs lpc"
  shows "prefix (ticks (fst (doLoad fuel stop i n secs lpc w)))
           (run_from lpc (nat (sint secs) * nat (sint lpc)))
         \<and> (snd (doLoad fuel stop i n secs lpc w)
              \<and> Select True \<notin> set (fst (doLoad fuel stop i n secs lpc w)) \<longrightarrow>
            ticks (fst (doLoad fuel stop i n secs lpc w))
              = run_from lpc (nat (sint secs) * nat (sint lpc)))"
proof (cases "sint secs < 1")
  case True
  then have "\<not> 1 \<le>s secs" by (simp add: word_sle_eq)
  then have "fst (outer_loop fuel w stop i n secs lpc 1 0) = []"
    by (rule outer_loop_no_second)
  moreover from True have "nat (sint secs) = 0" by simp
  ultimately show ?thesis
    by (simp add: doLoad_unfold ticks_Nil ticks_Cons_other run_from_0)
next
  case False
  with assms have r: "sint secs < 2 ^ 63 - 1" "- (2 ^ 63) \<le> (sint secs + 1) * sint lpc"
    "(sint secs + 1) * sint lpc < 2 ^ 63"
    by (simp_all add: tick_range_ok_def)
  from False have c: "1 \<le> sint (1 :: goint)" "sint (1 :: goint) \<le> sint secs + 1"
    by simp_all
  from outer_loop_ticks [OF r c, of fuel w stop i n 0]
  show ?thesis
    by (simp add: doLoad_unfold ticks_WgDone)
qed

lemma sint_add_of_nat:
  fixes j :: goint
  assumes "sint j + int t < 2 ^ 63"
  shows "sint (j + of_nat t) = sint j + int t"
proof -
  have "j + of_nat t = of_int (sint j + int t)"
    by simp
  moreover have "- (2 ^ 63) \<le> sint j + int t"
    using sint_goint_bounds(1) [of j] by simp
  ultimately show ?thesis
    using assms by (simp only: signed_of_int) (simp add: signed_take_bit_int_eq_self)
qed

lemma sorted_run_from:
  assumes "sint j + int m \<le> 2 ^ 63"
  shows "sorted_wrt (<s) (run_from j m)"
proof -
  have "sorted_wrt (\<lambda>a b. j + of_nat a <s j + of_nat b) [0..<m]"
  proof (rule sorted_wrt_mono_rel [where P = "(<)"])
    fix a b :: nat
    assume "a \<in> set [0..<m]" and "b \<in> set [0..<m]" and "a < b"
    with assms have "sint j + int a < 2 ^ 63" and "sint j + int b < 2 ^ 63"
      by simp_all
    with \<open>a < b\<close> show "j + of_nat a <s j + of_nat b"
      by (simp add: word_sless_alt sint_add_of_nat)
  next
    show "sorted_wrt (<) [0..<m]" by simp
  qed
  then show ?thesis
    by (simp add: run_from_def sorted_wrt_map)
qed

lemma sorted_wrt_sless_distinct: "sorted_wrt (<s) (xs :: goint list) \<Longrightarrow> distinct xs"
  by (induction xs) auto

lemma sorted_wrt_prefix: "prefix xs ys \<Longrightarrow> sorted_wrt R ys \<Longrightarrow> sorted_wrt R xs"
  by (auto simp: prefix_def sorted_wrt_append)

lemma schedule_bound:
  assumes "tick_range_ok secs lpc"
  shows "sint lpc + int (nat (sint secs) * nat (sint lpc)) \<le> 2 ^ 63"
proof (cases "1 \<le> sint secs \<and> 1 \<le> sint lpc")
  case True
  then have "int (nat (sint secs) * nat (sint lpc)) = sint secs * sint lpc"
    by simp
  moreover from True assms have "(sint secs + 1) * sint lpc < 2 ^ 63"
    by (simp add: tick_range_ok_def)
  ultimately show ?thesis
    by (simp add: algebra_simps)
next
  case False
  then have z: "nat (sint secs) * nat (sint lpc) = 0"
    by auto
  show ?thesis
    unfolding z using sint_goint_bounds(2) [of lpc] by simp
qed

lemma tick_schedule_run:
  "tick_schedule secs lpc = run_from lpc (nat (sint secs) * nat (sint lpc))"
proof -
  have "concat (map (\<lambda>s. run_from (lpc + of_nat s * lpc) (nat (sint lpc))) [0..<m])
          = run_from lpc (m * nat (sint lpc))" for m
  proof (induction m)
    case 0
    show ?case by (simp add: run_from_0)
  next
    case (Suc m)
    show ?case
    proof (cases "0 \<le> sint lpc")
      case True
      then have "(of_nat (m * nat (sint lpc)) :: goint) = of_nat m * lpc"
        by (simp add: of_nat_nat_sint)
      with Suc show ?thesis
        by (simp add: run_from_add add.commute [of "nat (sint lpc)"])
    next
      case False
      with Suc show ?thesis by (simp add: run_from_0)
    qed
  qed
  then show ?thesis
    by (simp add: tick_schedule_def run_from_def add.assoc)
qed









lemma main_workers:
  assumes "(i, es) \<in> set (workers (main fuel cfg e))"
  shows "\<exists>ev1 w. new_writer cfg e = (ev1, Inr w)
           \<and> es = fst (doLoad fuel (closed_before e i) i (measurementName cfg) (secondsCount cfg)
                        (lineProtocolsCount cfg) w)"
  using assms
  by (cases rule: main_shape [of cfg e fuel]) (auto simp: run_workers_def case_prod_beta)


section \<open>Lemmas about whole runs\<close>



















section \<open>The expected tick count\<close>

text \<open>
  C1. In every run the expected size that \<^verbatim>\<open>main\<close> prints is the one value
  \<^verbatim>\<open>threadsCount * secondsCount * lineProtocolsCount\<close> of the configuration (Go's \<^verbatim>\<open>int\<close>
  product, line 53), whatever the backend answers, however the workers are scheduled and
  however long the run is followed; it is printed before the first \<^verbatim>\<open>go doLoad\<close>; and
  when the product of the three numbers fits \<^verbatim>\<open>int\<close> it is that product.
\<close>

theorem expected_from_configuration:
  "expected_values (events (main fuel cfg e)) =
     [threadsCount cfg * secondsCount cfg * lineProtocolsCount cfg]
   \<and> PrintExpected (threadsCount cfg * secondsCount cfg * lineProtocolsCount cfg)
       \<in> set (takeWhile (\<lambda>ev. \<not> is_Go ev) (events (main fuel cfg e)))
   \<and> (- (2 ^ 63) \<le> sint (threadsCount cfg) * sint (secondsCount cfg) * sint (lineProtocolsCount cfg)
         \<and> sint (threadsCount cfg) * sint (secondsCount cfg) * sint (lineProtocolsCount cfg) < 2 ^ 63
       \<longrightarrow> sint (threadsCount cfg * secondsCount cfg * lineProtocolsCount cfg)
             = sint (threadsCount cfg) * sint (secondsCount cfg) * sint (lineProtocolsCount cfg))"
proof (intro conjI impI)
  show "expected_values (events (main fuel cfg e)) =
          [threadsCount cfg * secondsCount cfg * lineProtocolsCount cfg]"
    by (rule main_expected_values)
next
  obtain rest where "events (main fuel cfg e) = startup cfg @ rest"
    using main_events_startup by blast
  then show "PrintExpected (threadsCount cfg * secondsCount cfg * lineProtocolsCount cfg)
       \<in> set (takeWhile (\<lambda>ev. \<not> is_Go ev) (events (main fuel cfg e)))"
    by (simp add: startup_def)
next
  assume "- (2 ^ 63) \<le> sint (threadsCount cfg) * sint (secondsCount cfg) * sint (lineProtocolsCount cfg)
         \<and> sint (threadsCount cfg) * sint (secondsCount cfg) * sint (lineProtocolsCount cfg) < 2 ^ 63"
  then show "sint (threadsCount cfg * secondsCount cfg * lineProtocolsCount cfg)
             = sint (threadsCount cfg) * sint (secondsCount cfg) * sint (lineProtocolsCount cfg)"
    by (simp add: sint_mult3)
qed

theorem expected_from_configuration_witness:
  "expected_values (events (main 2 scenarioA env_plain)) = [6]
   \<and> PrintExpected 6 \<in> set (takeWhile (\<lambda>ev. \<not> is_Go ev) (events (main 2 scenarioA env_plain)))
   \<and> sint (threadsCount scenarioA * secondsCount scenarioA * lineProtocolsCount scenarioA) = 6
   \<and> status (main 2 scenarioA env_plain) = Exited"
proof -
  have "status (main 2 scenarioA env_plain) = Exited"
    by code_simp
  then show ?thesis
    using expected_from_configuration [of 2 scenarioA env_plain]
    by (simp add: scenarioA_def)
qed


section \<open>Skipping the count\<close>

text \<open>
  C7. In every run with \<^verbatim>\<open>skipCount\<close> set, \<^verbatim>\<open>main\<close> never calls \<^verbatim>\<open>Count\<close>, never
  announces the query and never prints a result with an observed total, and no worker
  calls \<^verbatim>\<open>Count\<close> either.
\<close>

theorem skipCount_never_counts:
  assumes "skipCount cfg"
  shows "CountCall n r \<notin> set (events (main fuel cfg e))
         \<and> PrintQuerying \<notin> set (events (main fuel cfg e))
         \<and> PrintResults x y \<notin> set (events (main fuel cfg e))
         \<and> ((i, es) \<in> set (workers (main fuel cfg e)) \<longrightarrow> CountCall n r \<notin> set es)"
proof -
  have "CountCall n r \<notin> set (events (main fuel cfg e))
         \<and> PrintQuerying \<notin> set (events (main fuel cfg e))
         \<and> PrintResults x y \<notin> set (events (main fuel cfg e))"
    using assms
    by (cases rule: main_shape [of cfg e fuel])
      (auto simp: startup_def counting_skipped dest: new_writer_events closing_events)
  moreover have "CountCall n r \<notin> set es" if w: "(i, es) \<in> set (workers (main fuel cfg e))"
  proof
    assume c: "CountCall n r \<in> set es"
    from main_workers [OF w] obtain w' where
      "es = fst (doLoad fuel (closed_before e i) i (measurementName cfg) (secondsCount cfg)
                   (lineProtocolsCount cfg) w')"
      by blast
    then have "\<forall>ev\<in>set es. is_worker_event ev"
      using doLoad_worker by (simp add: list_all_iff)
    with c have "is_worker_event (CountCall n r)"
      by blast
    then show False by simp
  qed
  ultimately show ?thesis by blast
qed

theorem skipCount_never_counts_witness:
  "skipCount scenarioA
   \<and> (\<forall>n r. CountCall n r \<notin> set (events (main 2 scenarioA env_plain)))
   \<and> PrintQuerying \<notin> set (events (main 2 scenarioA env_plain))
   \<and> (\<forall>x y. PrintResults x y \<notin> set (events (main 2 scenarioA env_plain)))
   \<and> expected_values (events (main 2 scenarioA env_plain)) = [6]
   \<and> status (main 2 scenarioA env_plain) = Exited"
proof -
  have s: "skipCount scenarioA"
    by (simp add: scenarioA_def)
  have "expected_values (events (main 2 scenarioA env_plain)) = [6]"
    and "status (main 2 scenarioA env_plain) = Exited"
    by code_simp+
  then show ?thesis
    using s skipCount_never_counts [OF s, of _ _ 2 env_plain] by simp
qed


section \<open>A failing count\<close>

text \<open>
  C2, as the code has it. In every run that does not skip counting and whose \<^verbatim>\<open>Count\<close>
  returns an error, \<^verbatim>\<open>main\<close> panics with that error (line 111), prints no result, and
  never calls \<^verbatim>\<open>Close\<close>: the call on line 122 is not deferred and the panic comes first.
\<close>

theorem count_error_panics_without_close:
  assumes "\<not> skipCount cfg"
    and "CountCall n (Inr (t, Some err)) \<in> set (events (main fuel cfg e))"
  shows "status (main fuel cfg e) = Panicked (PanicError err)
         \<and> PrintResults x y \<notin> set (events (main fuel cfg e))
         \<and> CloseCall r \<notin> set (events (main fuel cfg e))"
proof -
  from assms(2) obtain ev1 w ids ev3 res rest where nw: "new_writer cfg e = (ev1, Inr w)"
    and c: "counting cfg w (threadsCount cfg * secondsCount cfg * lineProtocolsCount cfg) = (ev3, res)"
    and wc: "Inr (t, Some err) = Writer_Count w (measurementName cfg)"
    and ev: "events (main fuel cfg e) =
           startup cfg @ ev1 @ [MakeChan, WgAdd (threadsCount cfg)] @ map Go ids @ [GoTimer, WgWait]
             @ ev3 @ rest"
    and p: "\<And>p. res = Some p \<Longrightarrow> rest = [] \<and> status (main fuel cfg e) = Panicked p"
    by (rule main_CountCall) blast
  from wc assms(1) c have ev3: "ev3 = [PrintQuerying, CountCall (measurementName cfg) (Inr (t, Some err))]"
    and res: "res = Some (PanicError err)"
    using counting_error [of w cfg t err] by simp_all
  from p [OF res] have "rest = []" and st: "status (main fuel cfg e) = Panicked (PanicError err)"
    by simp_all
  with ev ev3 nw show ?thesis
    by (auto simp: startup_def dest: new_writer_events)
qed

theorem count_error_close_counterexample:
  "\<not> skipCount scenarioD
   \<and> CountCall ''sensor'' (Inr (0, Some (Error ''query failed'')))
       \<in> set (events (main 1 scenarioD env_plain))
   \<and> status (main 1 scenarioD env_plain) = Panicked (PanicError (Error ''query failed''))
   \<and> length (filter is_CloseCall (events (main 1 scenarioD env_plain))) = 0"
  by code_simp

theorem count_error_panics_without_close_witness:
  "\<not> skipCount scenarioD
   \<and> CountCall ''sensor'' (Inr (0, Some (Error ''query failed'')))
       \<in> set (events (main 1 scenarioD env_plain))
   \<and> status (main 1 scenarioD env_plain) = Panicked (PanicError (Error ''query failed''))
   \<and> (\<forall>x y. PrintResults x y \<notin> set (events (main 1 scenarioD env_plain)))
   \<and> (\<forall>r. CloseCall r \<notin> set (events (main 1 scenarioD env_plain)))"
proof -
  have a: "\<not> skipCount scenarioD"
    by (simp add: scenarioD_def)
  have b: "CountCall ''sensor'' (Inr (0, Some (Error ''query failed'')))
       \<in> set (events (main 1 scenarioD env_plain))"
    by code_simp
  show ?thesis
    using a b count_error_panics_without_close [OF a b] by blast
qed

section \<open>The count of the InfluxDB 1 writer\<close>

text \<open>
  C9. With the InfluxDB 1 writer, when the query fails or the response carries an error,
  \<^verbatim>\<open>Count\<close> returns \<^verbatim>\<open>(0, nil)\<close>: every \<^verbatim>\<open>Count\<close> call of the run returns that, every
  printed result has the total 0, and the only error \<^verbatim>\<open>main\<close> can panic with is the one
  of \<^verbatim>\<open>Close\<close>, never one of the query.
\<close>

theorem WriterV1_Count_hides_query_failure:
  assumes "query_result p (''SELECT count(*) FROM '' @ measurementName cfg) = Inl err
           \<or> (\<exists>response. query_result p (''SELECT count(*) FROM '' @ measurementName cfg) = Inr response
                 \<and> resp_error response \<noteq> None)"
    and "writerType cfg \<noteq> ''CLIENT_GO_V2''" and "http_client e = Inr p"
  shows "WriterV1_Count p (measurementName cfg) = Inr (0, None)
         \<and> (CountCall n r \<in> set (events (main fuel cfg e)) \<longrightarrow> r = Inr (0, None))
         \<and> (PrintResults a b \<in> set (events (main fuel cfg e)) \<longrightarrow> b = 0)
         \<and> (status (main fuel cfg e) = Panicked (PanicError x) \<longrightarrow> close_result p = Some x)"
proof -
  have wc: "WriterV1_Count p (measurementName cfg) = Inr (0, None)"
    using assms(1) by (auto simp: WriterV1_Count_def)
  have nw: "new_writer cfg e = ([NewClient ''http://localhost:8086''], Inr (WriterV1 p))"
    using assms(2,3) by (simp add: new_writer_def)
  have c: "\<not> skipCount cfg \<Longrightarrow> counting cfg (WriterV1 p) y =
           (if secondsCount cfg = 0
            then ([PrintQuerying, CountCall (measurementName cfg) (Inr (0, None)), PrintResults y 0],
                  Some DivideByZero)
            else ([PrintQuerying, CountCall (measurementName cfg) (Inr (0, None)), PrintResults y 0,
                   PrintRate 0, PrintTotalTime], None))" for y
    using wc counting_zero [of "WriterV1 p" cfg y] by simp
  have cs: "skipCount cfg \<Longrightarrow> counting cfg (WriterV1 p) y = ([], None)" for y
    by (rule counting_skipped)
  have "(CountCall n r \<in> set (events (main fuel cfg e)) \<longrightarrow> r = Inr (0, None))
         \<and> (PrintResults a b \<in> set (events (main fuel cfg e)) \<longrightarrow> b = 0)
         \<and> (status (main fuel cfg e) = Panicked (PanicError x) \<longrightarrow> close_result p = Some x)"
    using nw
    by (cases rule: main_shape [of cfg e fuel]; cases "skipCount cfg")
       (auto simp: startup_def c cs closing_def Let_def split: if_splits option.splits)
  with wc show ?thesis by simp
qed

theorem WriterV1_Count_hides_query_failure_witness:
  "query_result influx1_failing (''SELECT count(*) FROM '' @ measurementName count_v1)
     = Inl (Error ''connection refused'')
   \<and> writerType count_v1 \<noteq> ''CLIENT_GO_V2'' \<and> http_client env_failing = Inr influx1_failing
   \<and> WriterV1_Count influx1_failing (measurementName count_v1) = Inr (0, None)
   \<and> CountCall ''sensor'' (Inr (0, None)) \<in> set (events (main 1 count_v1 env_failing))
   \<and> PrintResults 1 0 \<in> set (events (main 1 count_v1 env_failing))
   \<and> status (main 1 count_v1 env_failing) = Exited"
proof -
  have a: "query_result influx1_failing (''SELECT count(*) FROM '' @ measurementName count_v1)
     = Inl (Error ''connection refused'')"
    by (simp add: influx1_failing_def)
  have b: "writerType count_v1 \<noteq> ''CLIENT_GO_V2''"
    by (simp add: count_v1_def)
  have c: "http_client env_failing = Inr influx1_failing"
    by (simp add: env_failing_def)
  have d: "CountCall ''sensor'' (Inr (0, None)) \<in> set (events (main 1 count_v1 env_failing))"
    "PrintResults 1 0 \<in> set (events (main 1 count_v1 env_failing))"
    "status (main 1 count_v1 env_failing) = Exited"
    by code_simp+
  show ?thesis
    using a b c d WriterV1_Count_hides_query_failure [OF disjI1 [OF a] b c] by blast
qed

text \<open>
  C10. With the InfluxDB 1 writer, when the query succeeds with no error and the cell
  \<^verbatim>\<open>Results[0].Series[0].Values[0][1]\<close> is not there, \<^verbatim>\<open>Count\<close> panics with an index out
  of range; a run that reaches the count ends in that panic, and no run prints a result.
\<close>

theorem WriterV1_Count_empty_result_panics:
  assumes "query_result p (''SELECT count(*) FROM '' @ measurementName cfg) = Inr response"
    and "resp_error response = None" and "first_cell_missing response"
    and "writerType cfg \<noteq> ''CLIENT_GO_V2''" and "http_client e = Inr p"
  shows "WriterV1_Count p (measurementName cfg) = Inl IndexOutOfRange
         \<and> (CountCall n r \<in> set (events (main fuel cfg e)) \<longrightarrow>
               r = Inl IndexOutOfRange \<and> status (main fuel cfg e) = Panicked IndexOutOfRange)
         \<and> PrintResults a b \<notin> set (events (main fuel cfg e))"
proof -
  have wc: "WriterV1_Count p (measurementName cfg) = Inl IndexOutOfRange"
    using assms(1,2,3)
    by (auto simp: WriterV1_Count_def first_cell_missing_def and_then_def index_Nil index_Cons_0
        index_def split: list.splits)
  have nw: "new_writer cfg e = ([NewClient ''http://localhost:8086''], Inr (WriterV1 p))"
    using assms(4,5) by (simp add: new_writer_def)
  have c: "\<not> skipCount cfg \<Longrightarrow> counting cfg (WriterV1 p) y =
             ([PrintQuerying, CountCall (measurementName cfg) (Inl IndexOutOfRange)],
              Some IndexOutOfRange)" for y
    using wc counting_panic [of "WriterV1 p" cfg IndexOutOfRange y] by simp
  have cs: "skipCount cfg \<Longrightarrow> counting cfg (WriterV1 p) y = ([], None)" for y
    by (rule counting_skipped)
  have "(CountCall n r \<in> set (events (main fuel cfg e)) \<longrightarrow>
               r = Inl IndexOutOfRange \<and> status (main fuel cfg e) = Panicked IndexOutOfRange)
         \<and> PrintResults a b \<notin> set (events (main fuel cfg e))"
    using nw
    by (cases rule: main_shape [of cfg e fuel]; cases "skipCount cfg")
       (auto simp: startup_def c cs closing_def Let_def split: if_splits option.splits)
  with wc show ?thesis by simp
qed

theorem WriterV1_Count_empty_result_panics_witness:
  "query_result influx1_empty (''SELECT count(*) FROM '' @ measurementName count_v1)
     = Inr \<lparr>resp_error = None, Results = [\<lparr>Series = []\<rparr>]\<rparr>
   \<and> first_cell_missing \<lparr>resp_error = None, Results = [\<lparr>Series = []\<rparr>]\<rparr>
   \<and> writerType count_v1 \<noteq> ''CLIENT_GO_V2'' \<and> http_client env_empty = Inr influx1_empty
   \<and> WriterV1_Count influx1_empty (measurementName count_v1) = Inl IndexOutOfRange
   \<and> CountCall ''sensor'' (Inl IndexOutOfRange) \<in> set (events (main 1 count_v1 env_empty))
   \<and> status (main 1 count_v1 env_empty) = Panicked IndexOutOfRange
   \<and> (\<forall>a b. PrintResults a b \<notin> set (events (main 1 count_v1 env_empty)))"
proof -
  have a: "query_result influx1_empty (''SELECT count(*) FROM '' @ measurementName count_v1)
     = Inr \<lparr>resp_error = None, Results = [\<lparr>Series = []\<rparr>]\<rparr>"
    by (simp add: influx1_empty_def)
  have a2: "resp_error \<lparr>resp_error = None, Results = [\<lparr>Series = []\<rparr>]\<rparr> = None"
    by simp
  have a3: "first_cell_missing \<lparr>resp_error = None, Results = [\<lparr>Series = []\<rparr>]\<rparr>"
    by (simp add: first_cell_missing_def)
  have b: "writerType count_v1 \<noteq> ''CLIENT_GO_V2''"
    by (simp add: count_v1_def)
  have c: "http_client env_empty = Inr influx1_empty"
    by (simp add: env_empty_def)
  have d: "CountCall ''sensor'' (Inl IndexOutOfRange) \<in> set (events (main 1 count_v1 env_empty))"
    by code_simp
  show ?thesis
    using a a3 b c d WriterV1_Count_empty_result_panics [OF a a2 a3 b c] by blast
qed


section \<open>The worker and the stop signal\<close>




section \<open>The stop signal\<close>





section \<open>The tick sequence numbers of a worker\<close>

text \<open>
  C6. While the tick arithmetic stays inside \<^verbatim>\<open>int\<close>, the tick numbers a worker submits
  are, in submission order, a prefix of the schedule that starts at the base
  \<^verbatim>\<open>lineProtocolsCount\<close> and advances by \<^verbatim>\<open>lineProtocolsCount\<close> each second; they are
  strictly increasing and none is used twice; a worker that returns without having seen
  the stop signal has submitted the whole schedule. This holds for \<^verbatim>\<open>doLoad\<close> with any
  other arguments, and so for every worker that \<^verbatim>\<open>main\<close> starts.
\<close>

theorem doLoad_ticks_increasing:
  assumes "tick_range_ok secs lpc"
  shows "prefix (ticks (fst (doLoad fuel stop i n secs lpc w))) (tick_schedule secs lpc)
         \<and> sorted_wrt (<s) (ticks (fst (doLoad fuel stop i n secs lpc w)))
         \<and> distinct (ticks (fst (doLoad fuel stop i n secs lpc w)))
         \<and> (snd (doLoad fuel stop i n secs lpc w)
              \<and> Select True \<notin> set (fst (doLoad fuel stop i n secs lpc w)) \<longrightarrow>
            ticks (fst (doLoad fuel stop i n secs lpc w)) = tick_schedule secs lpc)
         \<and> ((i', es) \<in> set (workers (main fuel' cfg e))
              \<and> secondsCount cfg = secs \<and> lineProtocolsCount cfg = lpc \<longrightarrow>
            prefix (ticks es) (tick_schedule secs lpc) \<and> sorted_wrt (<s) (ticks es)
            \<and> distinct (ticks es))"
proof -
  have p: "prefix (ticks (fst (doLoad f s j m secs lpc z))) (tick_schedule secs lpc)"
    and f: "snd (doLoad f s j m secs lpc z)
              \<and> Select True \<notin> set (fst (doLoad f s j m secs lpc z)) \<longrightarrow>
            ticks (fst (doLoad f s j m secs lpc z)) = tick_schedule secs lpc" for f s j m z
    using doLoad_ticks [OF assms, of f s j m z] by (simp_all add: tick_schedule_run)
  have sched: "sorted_wrt (<s) (tick_schedule secs lpc)"
    unfolding tick_schedule_run using schedule_bound [OF assms] by (rule sorted_run_from)
  have s: "sorted_wrt (<s) (ticks (fst (doLoad f s j m secs lpc z)))" for f s j m z
    using p sched by (rule sorted_wrt_prefix)
  have d: "distinct (ticks (fst (doLoad f s j m secs lpc z)))" for f s j m z
    using s by (rule sorted_wrt_sless_distinct)
  have "prefix (ticks es) (tick_schedule secs lpc) \<and> sorted_wrt (<s) (ticks es)
          \<and> distinct (ticks es)"
    if "(i', es) \<in> set (workers (main fuel' cfg e))" and "secondsCount cfg = secs"
      and "lineProtocolsCount cfg = lpc"
    using main_workers [OF that(1)] that(2,3) p s d by auto
  with p f s d show ?thesis by blast
qed

theorem doLoad_ticks_increasing_witness:
  "tick_range_ok 2 3
   \<and> ticks (fst (doLoad 2 None 1 ''sensor'' 2 3 (WriterV1 influx1_ok))) = [3, 4, 5, 6, 7, 8]
   \<and> tick_schedule 2 3 = [3, 4, 5, 6, 7, 8]
   \<and> prefix (ticks (fst (doLoad 2 None 1 ''sensor'' 2 3 (WriterV1 influx1_ok)))) (tick_schedule 2 3)
   \<and> sorted_wrt (<s) (ticks (fst (doLoad 2 None 1 ''sensor'' 2 3 (WriterV1 influx1_ok))))
   \<and> distinct (ticks (fst (doLoad 2 None 1 ''sensor'' 2 3 (WriterV1 influx1_ok))))"
proof -
  have r: "tick_range_ok 2 3"
    by (simp add: tick_range_ok_def)
  have "ticks (fst (doLoad 2 None 1 ''sensor'' 2 3 (WriterV1 influx1_ok))) = [3, 4, 5, 6, 7, 8]"
    and "tick_schedule 2 3 = [3, 4, 5, 6, 7, 8]"
    by code_simp+
  then show ?thesis
    using r doLoad_ticks_increasing [OF r, of 2 None 1 "''sensor''" "WriterV1 influx1_ok"]
    by simp
qed


section \<open>Failing submissions\<close>





section \<open>Configurations that the specification calls invalid\<close>




end
